theory Spec2Isabelle
  imports Complex_Main "HOL-Library.Word"
begin

section \<open>Data model of \<open>find_audio.py\<close>\<close>

text \<open>
  A block read from the disk image is a Python \<open>bytes\<close> object: a list of 8-bit words.
  Python integers are unbounded and are modelled by \<open>int\<close>; lengths and loop indices
  that never go below zero are \<open>nat\<close>. A Python float is an IEEE-754 double, which is a
  rational number, so the floating-point quantities of the classifier have type \<open>rat\<close>.
\<close>

type_synonym byte = "8 word"

datatype block_type = Audio | Silence | Noise | Empty

datatype py_error = ZeroDivisionError | ValueError | StructError

text \<open>Module constants (lines 13-19).\<close>

definition SAMPLE_RATE :: int where "SAMPLE_RATE = 48000"
definition BIT_DEPTH :: int where "BIT_DEPTH = 16"
definition CHANNELS :: int where "CHANNELS = 2"
definition BYTES_PER_SAMPLE :: int where "BYTES_PER_SAMPLE = 2"
definition BLOCK_SIZE :: nat where "BLOCK_SIZE = 1024 * 1024"

subsection \<open>Python primitives that can raise\<close>

text \<open>Sequencing of computations that may raise: the first exception propagates.\<close>

definition and_then :: "py_error + 'a \<Rightarrow> ('a \<Rightarrow> py_error + 'b) \<Rightarrow> py_error + 'b" where
  "and_then r f = (case r of Inl e \<Rightarrow> Inl e | Inr x \<Rightarrow> f x)"

text \<open>
  True division \<open>a / b\<close> with the exact quotient as its value: raises
  \<open>ZeroDivisionError\<close> on a zero divisor.
\<close>

definition truediv :: "rat \<Rightarrow> rat \<Rightarrow> py_error + rat" where
  "truediv a b = (if b = 0 then Inl ZeroDivisionError else Inr (a / b))"

subsection \<open>Floating-point arithmetic\<close>

text \<open>
  The statistics of lines 54-66 are computed in double precision, and the result of each
  operation is rounded. The operations whose results depend on the rounding are the
  parameters of the model:

    \<^item> \<open>rnd\<close> rounds the exact result of one division or subtraction to a double. The
      true division of two integers and the IEEE operations on doubles are correctly
      rounded, and an integer operand of absolute value at most \<open>2 ^ 53\<close> is converted
      to a double without error;
    \<^item> \<open>fpow2\<close> is \<open>x ** 2\<close> on a double, which is the \<open>pow\<close> of the C library;
    \<^item> \<open>fsum\<close> is the built-in \<open>sum\<close> on a sequence of doubles, whose order and
      compensation of the additions depend on the version of the interpreter.
\<close>

record float_ops =
  rnd :: "rat \<Rightarrow> rat"
  fpow2 :: "rat \<Rightarrow> rat"
  fsum :: "rat list \<Rightarrow> rat"

text \<open>
  What the properties below use of these operations: rounding is monotone, it leaves the
  integers of absolute value at most \<open>2 ^ 53\<close> unchanged, the square of zero is zero and a
  sum of zeros is zero. IEEE-754 arithmetic in round-to-nearest mode has these properties.
\<close>

definition float_ok :: "float_ops \<Rightarrow> bool" where
  "float_ok fp \<longleftrightarrow>
     (\<forall>x y. x \<le> y \<longrightarrow> rnd fp x \<le> rnd fp y) \<and>
     (\<forall>k::int. \<bar>k\<bar> \<le> 2 ^ 53 \<longrightarrow> rnd fp (of_int k) = of_int k) \<and>
     fpow2 fp 0 = 0 \<and>
     (\<forall>n. fsum fp (replicate n 0) = 0)"

text \<open>Arithmetic without rounding error is one instance of the operations.\<close>

definition exact_ops :: float_ops where
  "exact_ops = \<lparr>rnd = (\<lambda>x. x), fpow2 = (\<lambda>x. x * x), fsum = sum_list\<rparr>"

text \<open>
  True division with a float result: \<open>ZeroDivisionError\<close> on a zero divisor, else the
  rounded quotient.
\<close>

definition fdiv :: "float_ops \<Rightarrow> rat \<Rightarrow> rat \<Rightarrow> py_error + rat" where
  "fdiv fp a b = (if b = 0 then Inl ZeroDivisionError else Inr (rnd fp (a / b)))"

text \<open>
  The doubles that the literals \<open>0.3\<close> and \<open>0.2\<close> of lines 75 and 78 denote: the first is
  below \<open>3 / 10\<close> and the second is above \<open>2 / 10\<close>.
\<close>

definition LIT_0_3 :: rat where
  "LIT_0_3 = 5404319552844595 / 18014398509481984"

definition LIT_0_2 :: rat where
  "LIT_0_2 = 3602879701896397 / 18014398509481984"

text \<open>\<open>max(iterable)\<close>: raises \<open>ValueError\<close> on an empty iterable.\<close>

fun py_max :: "int list \<Rightarrow> py_error + int" where
  "py_max [] = Inl ValueError"
| "py_max (x # xs) = Inr (fold max xs x)"

text \<open>The slice \<open>xs[a:b]\<close> for indices \<open>0 \<le> a\<close>, \<open>0 \<le> b\<close>.\<close>

definition py_slice :: "'a list \<Rightarrow> nat \<Rightarrow> nat \<Rightarrow> 'a list" where
  "py_slice xs a b = take (b - a) (drop a xs)"

text \<open>
  \<open>struct.unpack('<h', b)[0]\<close>: a signed 16-bit little-endian integer from exactly two
  bytes; any other length raises \<open>struct.error\<close>.
\<close>

fun unpack_h :: "byte list \<Rightarrow> py_error + int" where
  "unpack_h [lo, hi] = Inr (sint (word_cat hi lo :: 16 word))"
| "unpack_h _ = Inl StructError"

section \<open>The block classifier \<open>analyze_block\<close>\<close>

text \<open>
  \<open>data.count(b'\x00')\<close> divided by \<open>len(data)\<close> (lines 30-31). The quotient of the two
  integers is kept exact, and so are its comparisons with \<open>0.99\<close> and \<open>0.90\<close> in
  \<open>analyze_block\<close>.
\<close>

definition zero_ratio :: "byte list \<Rightarrow> py_error + rat" where
  "zero_ratio data =
     (let zero_count = count_list data 0
      in truediv (of_nat zero_count) (of_nat (length data)))"

text \<open>
  The sampling loop (lines 41-48): \<open>for i in range(0, min(len(data), 40000), 4)\<close>, with the
  loop index \<open>i\<close>, the bound \<open>stop\<close> and the list \<open>samples\<close> built so far.
\<close>

function sample_loop :: "byte list \<Rightarrow> nat \<Rightarrow> nat \<Rightarrow> int list \<Rightarrow> py_error + int list" where
  "sample_loop data i stop samples =
     (if i < stop then
        (if i + 2 \<le> length data then
           (let b = py_slice data i (i + 2) in
            if length b = 2 then
              (case unpack_h b of
                 Inl e \<Rightarrow> Inl e
               | Inr val \<Rightarrow> sample_loop data (i + 4) stop (samples @ [val]))
            else sample_loop data (i + 4) stop samples)
         else sample_loop data (i + 4) stop samples)
      else Inr samples)"
  by pat_completeness auto
termination
  by (relation "measure (\<lambda>(data, i, stop, samples). stop - i)") auto

declare sample_loop.simps [simp del]

definition extract_samples :: "byte list \<Rightarrow> py_error + int list" where
  "extract_samples data = sample_loop data 0 (min (length data) 40000) []"

text \<open>The signed 16-bit little-endian integer held by the two bytes at offset \<open>i\<close>.\<close>

definition sample_at :: "byte list \<Rightarrow> nat \<Rightarrow> int" where
  "sample_at data i = sint (word_cat (data ! (i + 1)) (data ! i) :: 16 word)"

text \<open>Mean and variance of the samples (lines 54-55).\<close>

definition variance_of :: "float_ops \<Rightarrow> int list \<Rightarrow> py_error + rat" where
  "variance_of fp samples =
     and_then (fdiv fp (of_int (sum_list samples)) (of_nat (length samples))) (\<lambda>avg.
       fdiv fp (fsum fp (map (\<lambda>s. fpow2 fp (rnd fp (of_int s - avg))) samples))
         (of_nat (length samples)))"

text \<open>Mean absolute difference of successive samples (lines 59-60).\<close>

definition diffs_of :: "int list \<Rightarrow> int list" where
  "diffs_of samples = map (\<lambda>i. \<bar>samples ! i - samples ! (i - 1)\<bar>) [1..<length samples]"

definition avg_diff_of :: "float_ops \<Rightarrow> int list \<Rightarrow> py_error + rat" where
  "avg_diff_of fp samples =
     (let diffs = diffs_of samples
      in if diffs \<noteq> [] then fdiv fp (of_int (sum_list diffs)) (of_nat (length diffs))
         else Inr 0)"

text \<open>Peak absolute value (line 61).\<close>

definition max_val_of :: "int list \<Rightarrow> py_error + int" where
  "max_val_of samples = py_max (map abs samples)"

text \<open>The smoothness expression of line 66, from \<open>avg_diff\<close> and \<open>max_val\<close>.\<close>

definition smoothness_expr :: "float_ops \<Rightarrow> rat \<Rightarrow> int \<Rightarrow> py_error + rat" where
  "smoothness_expr fp avg_diff max_val =
     (if max_val > 0 then
        and_then (fdiv fp avg_diff (of_int (max_val * 2))) (\<lambda>q. Inr (rnd fp (1 - q)))
      else Inr 0)"

text \<open>The smoothness of a list of samples, as lines 59-66 compute it.\<close>

definition smoothness_of :: "float_ops \<Rightarrow> int list \<Rightarrow> py_error + rat" where
  "smoothness_of fp samples =
     and_then (avg_diff_of fp samples) (\<lambda>avg_diff.
     and_then (max_val_of samples) (\<lambda>max_val.
       smoothness_expr fp avg_diff max_val))"

text \<open>
  \<open>analyze_block\<close> (lines 21-82), with every early return in the order of the source. The
  result is the pair of classification and score, or the exception raised.
\<close>

definition analyze_block :: "float_ops \<Rightarrow> byte list \<Rightarrow> py_error + (block_type \<times> rat)" where
  "analyze_block fp data =
     (if length data < 1000 then Inr (Empty, 0)
      else
        and_then (zero_ratio data) (\<lambda>zr.
        if zr > 99 / 100 then Inr (Empty, 0)
        else if zr > 90 / 100 then Inr (Silence, zr)
        else
          and_then (extract_samples data) (\<lambda>samples.
          if length samples < 100 then Inr (Empty, 0)
          else
            and_then (variance_of fp samples) (\<lambda>variance.
            and_then (avg_diff_of fp samples) (\<lambda>avg_diff.
            and_then (max_val_of samples) (\<lambda>max_val.
            if max_val = 0 then Inr (Silence, 0)
            else
              and_then (smoothness_expr fp avg_diff max_val) (\<lambda>smoothness.
              if variance < 1000 then Inr (Silence, smoothness)
              else if smoothness > LIT_0_3 \<and> variance > 10000 then Inr (Audio, smoothness)
              else if smoothness < LIT_0_2 then Inr (Noise, smoothness)
              else Inr (Audio, smoothness))))))))"

section \<open>The scan loop of \<open>find_audio_blocks\<close>\<close>

text \<open>
  The local variables of the scan (lines 97-101): the list of closed runs, the start of the
  run that is open (\<open>None\<close> when no run is open) and the index of the block being read.
\<close>

record scan_state =
  audio_blocks :: "(int \<times> int) list"
  current_audio_start :: "int option"
  block_num :: int

definition scan_init :: scan_state where
  "scan_init = \<lparr>audio_blocks = [], current_audio_start = None, block_num = 0\<rparr>"

text \<open>
  One iteration of the \<open>while\<close> loop after the block has been classified (lines 111-125).
  The progress messages do not touch the state and are left out.
\<close>

definition scan_step :: "scan_state \<Rightarrow> block_type \<Rightarrow> scan_state" where
  "scan_step st bt =
     (let st1 =
        (if bt = Audio then
           (case current_audio_start st of
              None \<Rightarrow> st\<lparr>current_audio_start := Some (block_num st)\<rparr>
            | Some start \<Rightarrow> st)
         else
           (case current_audio_start st of
              Some start \<Rightarrow>
                st\<lparr>audio_blocks := audio_blocks st @ [(start, block_num st - 1)],
                   current_audio_start := None\<rparr>
            | None \<Rightarrow> st))
      in st1\<lparr>block_num := block_num st1 + 1\<rparr>)"

text \<open>Closing the run that is still open at end-of-file (lines 128-129).\<close>

definition close_last :: "scan_state \<Rightarrow> (int \<times> int) list" where
  "close_last st =
     (case current_audio_start st of
        Some start \<Rightarrow> audio_blocks st @ [(start, block_num st - 1)]
      | None \<Rightarrow> audio_blocks st)"

text \<open>The run extractor on the sequence of classifications, block after block.\<close>

definition run_extractor :: "block_type list \<Rightarrow> (int \<times> int) list" where
  "run_extractor ts = close_last (foldl scan_step scan_init ts)"

text \<open>
  The loop on the image itself (lines 100-129): \<open>f.read(BLOCK_SIZE)\<close> at file position
  \<open>pos\<close> returns at most \<open>BLOCK_SIZE\<close> bytes, and the empty result ends the loop.
\<close>

function scan_file :: "float_ops \<Rightarrow> byte list \<Rightarrow> nat \<Rightarrow> scan_state
    \<Rightarrow> py_error + scan_state" where
  "scan_file fp img pos st =
     (let data = take BLOCK_SIZE (drop pos img) in
      if data = [] then Inr st
      else
        (case analyze_block fp data of
           Inl e \<Rightarrow> Inl e
         | Inr (bt, score) \<Rightarrow> scan_file fp img (pos + length data) (scan_step st bt)))"
  by pat_completeness auto
termination
  by (relation "measure (\<lambda>(fp, img, pos, st). length img - pos)")
     (auto simp: BLOCK_SIZE_def)

declare scan_file.simps [simp del]

definition find_audio_runs :: "float_ops \<Rightarrow> byte list \<Rightarrow> py_error + (int \<times> int) list" where
  "find_audio_runs fp img =
     (case scan_file fp img 0 scan_init of
        Inl e \<Rightarrow> Inl e
      | Inr st \<Rightarrow> Inr (close_last st))"

text \<open>
  The blocks that the successive reads return, and the specification of a run in the
  words of the data model: a maximal contiguous range \<open>s..e\<close> of indices classified as
  audio.
\<close>

function read_blocks :: "byte list \<Rightarrow> nat \<Rightarrow> byte list list" where
  "read_blocks img pos =
     (let data = take BLOCK_SIZE (drop pos img) in
      if data = [] then [] else data # read_blocks img (pos + length data))"
  by pat_completeness auto
termination
  by (relation "measure (\<lambda>(img, pos). length img - pos)")
     (auto simp: BLOCK_SIZE_def)

declare read_blocks.simps [simp del]

definition is_audio_run :: "block_type list \<Rightarrow> nat \<Rightarrow> nat \<Rightarrow> bool" where
  "is_audio_run ts s e \<longleftrightarrow>
     s \<le> e \<and> e < length ts \<and> (\<forall>i\<in>{s..e}. ts ! i = Audio) \<and>
     (s = 0 \<or> ts ! (s - 1) \<noteq> Audio) \<and>
     (e + 1 = length ts \<or> ts ! (e + 1) \<noteq> Audio)"

section \<open>The WAV writer \<open>create_wav_header\<close>\<close>

text \<open>
  \<open>struct.pack('<I', v)\<close> and \<open>struct.pack('<H', v)\<close>: the little-endian bytes of an
  unsigned 32-bit, respectively 16-bit, integer; a value out of range raises
  \<open>struct.error\<close>.
\<close>

fun le_bytes :: "nat \<Rightarrow> int \<Rightarrow> byte list" where
  "le_bytes 0 v = []"
| "le_bytes (Suc n) v = word_of_int v # le_bytes n (v div 256)"

definition pack_I :: "int \<Rightarrow> py_error + byte list" where
  "pack_I v = (if 0 \<le> v \<and> v < 2 ^ 32 then Inr (le_bytes 4 v) else Inl StructError)"

definition pack_H :: "int \<Rightarrow> py_error + byte list" where
  "pack_H v = (if 0 \<le> v \<and> v < 2 ^ 16 then Inr (le_bytes 2 v) else Inl StructError)"

text \<open>A bytes literal of ASCII characters, such as \<open>b'RIFF'\<close>.\<close>

definition ascii :: "string \<Rightarrow> byte list" where
  "ascii s = map (\<lambda>c. of_nat (of_char c)) s"

text \<open>
  The arguments of the successive \<open>f_out.write\<close> calls (lines 177-198), each one the bytes
  to write or the exception raised while computing them. \<open>raw_size\<close> is the size of the
  raw file, whose content is \<open>raw_data\<close>.
\<close>

definition wav_writes :: "byte list \<Rightarrow> (py_error + byte list) list" where
  "wav_writes raw_data =
     (let raw_size = int (length raw_data);
          byte_rate = SAMPLE_RATE * CHANNELS * BYTES_PER_SAMPLE;
          block_align = CHANNELS * BYTES_PER_SAMPLE
      in [Inr (ascii ''RIFF''),
          pack_I (raw_size + 36),
          Inr (ascii ''WAVE''),
          Inr (ascii ''fmt ''),
          pack_I 16,
          pack_H 1,
          pack_H CHANNELS,
          pack_I SAMPLE_RATE,
          pack_I byte_rate,
          pack_H block_align,
          pack_H BIT_DEPTH,
          Inr (ascii ''data''),
          pack_I raw_size,
          Inr raw_data])"

text \<open>
  Running the writes in order on the content written so far. The first exception ends the
  \<open>with\<close> block, which closes the file with what has been written until then.
\<close>

fun run_writes :: "(py_error + byte list) list \<Rightarrow> byte list \<Rightarrow> py_error option \<times> byte list" where
  "run_writes [] out = (None, out)"
| "run_writes (Inl e # ws) out = (Some e, out)"
| "run_writes (Inr bs # ws) out = run_writes ws (out @ bs)"

text \<open>
  \<open>create_wav_header\<close> (lines 166-198) on the content of the raw file: the exception raised,
  if any, and the content of the WAV file after the call.
\<close>

definition create_wav_header :: "byte list \<Rightarrow> py_error option \<times> byte list" where
  "create_wav_header raw_data = run_writes (wav_writes raw_data) []"

subsection \<open>Reading a canonical header back\<close>

text \<open>
  The parser of the round-trip property: the fields of the canonical 44-byte PCM header,
  each an unsigned little-endian integer at its fixed offset, and the bytes that follow
  the header.
\<close>

record wav_header =
  riff_size :: nat
  fmt_size :: nat
  audio_format :: nat
  num_channels :: nat
  sample_rate :: nat
  byte_rate :: nat
  block_align :: nat
  bits_per_sample :: nat
  data_size :: nat

fun le_nat :: "byte list \<Rightarrow> nat" where
  "le_nat [] = 0"
| "le_nat (b # bs) = unat b + 256 * le_nat bs"

definition parse_wav :: "byte list \<Rightarrow> (wav_header \<times> byte list) option" where
  "parse_wav file =
     (if 44 \<le> length file \<and>
         py_slice file 0 4 = ascii ''RIFF'' \<and>
         py_slice file 8 12 = ascii ''WAVE'' \<and>
         py_slice file 12 16 = ascii ''fmt '' \<and>
         py_slice file 36 40 = ascii ''data''
      then Some
        (\<lparr>riff_size = le_nat (py_slice file 4 8),
          fmt_size = le_nat (py_slice file 16 20),
          audio_format = le_nat (py_slice file 20 22),
          num_channels = le_nat (py_slice file 22 24),
          sample_rate = le_nat (py_slice file 24 28),
          byte_rate = le_nat (py_slice file 28 32),
          block_align = le_nat (py_slice file 32 34),
          bits_per_sample = le_nat (py_slice file 34 36),
          data_size = le_nat (py_slice file 40 44)\<rparr>,
         drop 44 file)
      else None)"

section \<open>The main program\<close>

text \<open>
  The script body (lines 201-248) up to the call of \<open>find_audio_blocks\<close>: the lines printed
  and either the exit code of \<open>sys.exit\<close> or the two arguments of the call. The
  environment is \<open>sys.argv\<close>, \<open>os.path.exists\<close> and \<open>os.path.expanduser\<close>.
\<close>

datatype outcome = Exit int | Scan string string

definition USA_PERCORSI_MANUALI :: bool where
  "USA_PERCORSI_MANUALI = True"

definition PERCORSO_IMMAGINE :: string where
  "PERCORSO_IMMAGINE = ''/Volumes/ROMEO/P_BIANCA.dmg''"

text \<open>The check of lines 236-240 on the chosen paths, after the lines \<open>out\<close> were printed.\<close>

definition check_input :: "(string \<Rightarrow> bool) \<Rightarrow> string list \<Rightarrow> string \<Rightarrow> string
    \<Rightarrow> string list \<times> outcome" where
  "check_input exists out image_path output_dir =
     (if \<not> exists image_path then
        (out @ [''Errore: file non trovato: '' @ image_path], Exit 1)
      else (out, Scan image_path output_dir))"

definition main_with :: "bool \<Rightarrow> string list \<Rightarrow> (string \<Rightarrow> bool) \<Rightarrow> (string \<Rightarrow> string)
    \<Rightarrow> string list \<times> outcome" where
  "main_with manual argv exists expanduser =
     (let CARTELLA_OUTPUT = expanduser ''~/Desktop/recovered_audio''
      in if manual then
           check_input exists
             [''Usando percorsi manuali:'',
              ''  Input:  '' @ PERCORSO_IMMAGINE,
              ''  Output: '' @ CARTELLA_OUTPUT,
              []]
             PERCORSO_IMMAGINE CARTELLA_OUTPUT
         else if length argv \<ge> 2 then
           check_input exists [] (argv ! 1)
             (if length argv > 2 then argv ! 2
              else expanduser ''~/Desktop/recovered_audio'')
         else
           ([''Uso: python find_audio.py <immagine.dmg> [cartella_output]'',
             [],
             ''Oppure modifica USA_PERCORSI_MANUALI = True nello script'',
             ''e imposta PERCORSO_IMMAGINE e CARTELLA_OUTPUT''],
            Exit 1))"

definition main :: "string list \<Rightarrow> (string \<Rightarrow> bool) \<Rightarrow> (string \<Rightarrow> string)
    \<Rightarrow> string list \<times> outcome" where
  "main = main_with USA_PERCORSI_MANUALI"

section \<open>Properties of the classifier\<close>

lemma zero_ratio_value:
  "data \<noteq> [] \<Longrightarrow> zero_ratio data = Inr (of_nat (count_list data 0) / of_nat (length data))"
  by (simp add: zero_ratio_def truediv_def)

lemma count_list_all_zero:
  "\<forall>b\<in>set data. b = 0 \<Longrightarrow> count_list data (0::byte) = length data"
  by (induction data) auto

lemma count_list_replicate:
  "count_list (replicate n x) y = (if x = y then n else 0)"
  by (induction n) auto

text \<open>
  Claim C3: a block of the configured size \<open>BLOCK_SIZE\<close> (1 MiB) whose bytes are all zero is
  classified \<open>Empty\<close>.
\<close>

theorem analyze_block_all_zero:
  assumes "length data = BLOCK_SIZE" and "\<forall>b\<in>set data. b = 0"
  shows "analyze_block fp data = Inr (Empty, 0)"
proof -
  have len: "length data = 1048576"
    using assms(1) by (simp add: BLOCK_SIZE_def)
  have "count_list data 0 = length data"
    using assms(2) by (rule count_list_all_zero)
  then have "zero_ratio data = Inr 1"
    using len by (simp add: zero_ratio_def truediv_def)
  then show ?thesis
    using len by (simp add: analyze_block_def and_then_def)
qed

theorem analyze_block_all_zero_witness:
  "length (replicate BLOCK_SIZE (0::byte)) = BLOCK_SIZE \<and>
   set (replicate BLOCK_SIZE (0::byte)) \<subseteq> {0} \<and>
   analyze_block exact_ops (replicate BLOCK_SIZE 0) = Inr (Empty, 0)"
  using analyze_block_all_zero [of "replicate BLOCK_SIZE 0" exact_ops]
  by (simp add: set_replicate_conv_if)

text \<open>
  Claim C4: a block of at least 1000 bytes whose ratio of zero bytes to its length is
  strictly greater than 0.90 and at most 0.99 is classified \<open>Silence\<close>, and the score is
  that ratio.
\<close>

theorem analyze_block_mostly_zero:
  assumes "1000 \<le> length data"
    and "9 / 10 < (of_nat (count_list data 0) / of_nat (length data) :: rat)"
    and "(of_nat (count_list data 0) / of_nat (length data) :: rat) \<le> 99 / 100"
  shows "analyze_block fp data =
    Inr (Silence, of_nat (count_list data 0) / of_nat (length data))"
proof -
  have "data \<noteq> []"
    using assms(1) by auto
  then have "zero_ratio data = Inr (of_nat (count_list data 0) / of_nat (length data))"
    by (rule zero_ratio_value)
  then show ?thesis
    using assms by (simp add: analyze_block_def and_then_def)
qed

theorem analyze_block_mostly_zero_witness:
  "1000 \<le> length (replicate 950 (0::byte) @ replicate 50 1) \<and>
   analyze_block exact_ops (replicate 950 0 @ replicate 50 1) = Inr (Silence, 95 / 100)"
  using analyze_block_mostly_zero [of "replicate 950 0 @ replicate 50 1" exact_ops]
  by (simp add: count_list_replicate)

subsection \<open>The interpreted samples\<close>

lemma py_slice_pair:
  assumes "i + 2 \<le> length data"
  shows "py_slice data i (i + 2) = [data ! i, data ! (i + 1)]"
proof -
  have "take 2 (drop i data) = [drop i data ! 0, drop i data ! 1]"
    using assms by (intro nth_equalityI) (auto simp: less_Suc_eq numeral_2_eq_2)
  then show ?thesis
    using assms by (simp add: py_slice_def)
qed
lemma sample_count_step:
  fixes i m :: nat
  assumes "i < m"
  shows "Suc ((m - (i + 4) + 3) div 4) = (m - i + 3) div 4"
proof (cases "i + 4 \<le> m")
  case True
  have "m - i + 3 = (m - (i + 4) + 3) + 4"
    using True by linarith
  then have "(m - i + 3) div 4 = ((m - (i + 4) + 3) + 4) div 4"
    by (rule arg_cong)
  also have "\<dots> = (m - (i + 4) + 3) div 4 + 1"
    by (rule div_add_self2) simp
  finally show ?thesis
    by (simp only: Suc_eq_plus1)
next
  case False
  have z: "m - (i + 4) = 0"
    using False by linarith
  have e: "4 * Suc 1 = (8::nat)"
    by simp
  have "4 * 1 \<le> m - i + 3"
    using assms by linarith
  moreover have "m - i + 3 < 8"
    using False by linarith
  ultimately have "(m - i + 3) div 4 = 1"
    by (intro div_nat_eqI) (simp_all only: e)
  moreover have "(0 + 3) div 4 = (0::nat)"
    by simp
  ultimately show ?thesis
    by (simp only: z)
qed
text \<open>
  The loop never raises, and it appends the sample at each index \<open>i, i + 4, \<dots>\<close> below
  \<open>stop\<close> that leaves room for two bytes.
\<close>

lemma sample_loop_value:
  "sample_loop data i stop samples =
     Inr (samples @ map (\<lambda>t. sample_at data (i + 4 * t))
            [0..<(min stop (length data - 1) - i + 3) div 4])"
proof (induction data i stop samples rule: sample_loop.induct)
  case (1 data i stop samples)
  let ?m = "min stop (length data - 1)"
  show ?case
  proof (cases "i < stop")
    case False
    then have "?m - i = 0" by linarith
    then have "(?m - i + 3) div 4 = 0" by simp
    then show ?thesis
      using False by (subst sample_loop.simps) simp
  next
    case lt: True
    show ?thesis
    proof (cases "i + 2 \<le> length data")
      case False
      have "?m \<le> i"
        using False by linarith
      then have z: "?m - (i + 4) = 0" "?m - i = 0"
        by linarith+
      have c0: "(?m - (i + 4) + 3) div 4 = 0" and c1: "(?m - i + 3) div 4 = 0"
        by (simp_all only: z)
      have "sample_loop data i stop samples = sample_loop data (i + 4) stop samples"
        using lt False by (subst sample_loop.simps) simp
      also have "\<dots> = Inr (samples @ map (\<lambda>t. sample_at data (i + 4 + 4 * t))
            [0..<(?m - (i + 4) + 3) div 4])"
        using lt False by (rule "1.IH"(3))
      finally show ?thesis
        unfolding c0 c1 by simp
    next
      case True
      have b: "py_slice data i (i + 2) = [data ! i, data ! (i + 1)]"
        using True by (rule py_slice_pair)
      have len2: "length (py_slice data i (i + 2)) = 2"
        using b by simp
      have up: "unpack_h (py_slice data i (i + 2)) = Inr (sample_at data i)"
        using b by (simp add: sample_at_def)
      have "i < ?m"
        using lt True by linarith
      then have cnt: "(?m - i + 3) div 4 = Suc ((?m - (i + 4) + 3) div 4)"
        by (rule sample_count_step [symmetric])
      have "sample_loop data i stop samples
          = sample_loop data (i + 4) stop (samples @ [sample_at data i])"
        using lt True len2 up by (subst sample_loop.simps) (simp add: Let_def)
      also have "\<dots> = Inr ((samples @ [sample_at data i]) @
          map (\<lambda>t. sample_at data (i + 4 + 4 * t)) [0..<(?m - (i + 4) + 3) div 4])"
        using lt True refl len2 up by (rule "1.IH"(1))
      also have "\<dots> = Inr (samples @ map (\<lambda>t. sample_at data (i + 4 * t))
            [0..<Suc ((?m - (i + 4) + 3) div 4)])"
        by (simp add: map_upt_Suc add.assoc del: upt_Suc)
      finally show ?thesis
        by (simp only: cnt)
    qed
  qed
qed

lemma sample_count_total:
  fixes n :: nat
  shows "(min (min n 40000) (n - 1) + 3) div 4 = (min n 40000 + 2) div 4"
proof -
  consider "n = 0" | "0 < n" "n \<le> 40000" | "40000 < n"
    by linarith
  then show ?thesis
  proof cases
    case 1
    then show ?thesis by simp
  next
    case 2
    then have "min n 40000 = n" and "min n (n - 1) = n - 1" and "n - 1 + 3 = n + 2"
      by linarith+
    then show ?thesis
      by (simp only:)
  next
    case 3
    then have "min n 40000 = 40000" and "min 40000 (n - 1) = 40000"
      by linarith+
    then show ?thesis
      by (simp only:) simp
  qed
qed

lemma extract_samples_value:
  "extract_samples data =
     Inr (map (\<lambda>k. sample_at data (4 * k)) [0..<(min (length data) 40000 + 2) div 4])"
proof -
  have "extract_samples data =
      Inr ([] @ map (\<lambda>t. sample_at data (0 + 4 * t))
        [0..<(min (min (length data) 40000) (length data - 1) - 0 + 3) div 4])"
    unfolding extract_samples_def by (rule sample_loop_value)
  also have "(min (min (length data) 40000) (length data - 1) - 0 + 3) div 4
      = (min (length data) 40000 + 2) div 4"
    using sample_count_total [of "length data"] by (simp only: diff_zero)
  finally show ?thesis
    by simp
qed

lemma extract_samples_length:
  "\<exists>samples. extract_samples data = Inr samples \<and>
     length samples = (min (length data) 40000 + 2) div 4"
  by (simp add: extract_samples_value)

lemma ceiling_quarter:
  fixes m :: nat
  shows "\<lceil>rat_of_nat m / 4\<rceil> = - ((- int m) div 4)"
proof -
  have "\<lceil>rat_of_nat m / 4\<rceil> = \<lceil>rat_of_int (int m) / rat_of_int 4\<rceil>"
    by simp
  also have "\<dots> = - ((- int m) div 4)"
    by (simp only: ceiling_divide_eq_div)
  finally show ?thesis .
qed

lemma neg_div_four:
  fixes q r :: nat
  assumes "0 < r" and "r < 4"
  shows "(- int (4 * q + r)) div 4 = - 1 - int q"
proof -
  have "- int (4 * q + r) = (4 - int r) + (- 1 - int q) * 4"
    by simp
  then have "(- int (4 * q + r)) div 4 = ((4 - int r) + (- 1 - int q) * 4) div 4"
    by (rule arg_cong)
  also have "\<dots> = (- 1 - int q) + (4 - int r) div 4"
    by (rule div_mult_self1) simp
  also have "(4 - int r) div 4 = 0"
    using assms by (intro div_pos_pos_trivial) linarith+
  finally show ?thesis
    by simp
qed

lemma pos_div_four:
  fixes q r :: nat
  assumes "r < 4"
  shows "(4 * q + r + 2) div 4 = q + (if 2 \<le> r then 1 else 0)"
proof -
  have "(4 * q + r + 2) div 4 = ((r + 2) + q * 4) div 4"
    by (rule arg_cong [where f = "\<lambda>x. x div 4"]) simp
  also have "\<dots> = q + (r + 2) div 4"
    by (rule div_mult_self1) simp
  also have "(r + 2) div 4 = (if 2 \<le> r then 1 else 0)"
    using assms by (auto intro!: div_nat_eqI)
  finally show ?thesis
    by simp
qed

lemma count_vs_ceiling:
  fixes m :: nat
  shows "int ((m + 2) div 4) = - ((- int m) div 4) - (if m mod 4 = 1 then 1 else 0)"
proof -
  define q where "q = m div 4"
  define r where "r = m mod 4"
  have m: "m = 4 * q + r" and r: "r < 4"
    by (simp_all add: q_def r_def)
  have a: "(m + 2) div 4 = q + (if 2 \<le> r then 1 else 0)"
    unfolding m using r by (rule pos_div_four)
  show ?thesis
  proof (cases "r = 0")
    case True
    then have "m = 4 * q" by (simp add: m)
    then have "(- int m) div 4 = - int q" by simp
    then show ?thesis
      unfolding a r_def [symmetric] using True by simp
  next
    case False
    then have "(- int m) div 4 = - 1 - int q"
      unfolding m using r by (intro neg_div_four) simp_all
    then show ?thesis
      unfolding a r_def [symmetric] using False r by auto
  qed
qed

lemma sample_count_ceiling:
  fixes m :: nat
  shows "m mod 4 \<noteq> 1 \<Longrightarrow> int ((m + 2) div 4) = \<lceil>rat_of_nat m / 4\<rceil>"
    and "m mod 4 = 1 \<Longrightarrow> int ((m + 2) div 4) = \<lceil>rat_of_nat m / 4\<rceil> - 1"
  unfolding ceiling_quarter using count_vs_ceiling [of m] by simp_all

lemma sample_offsets_in_range:
  fixes k m :: nat
  assumes "k < (m + 2) div 4"
  shows "4 * k + 2 \<le> m"
proof -
  have "Suc k \<le> (m + 2) div 4"
    using assms by simp
  then have "Suc k * 4 \<le> m + 2"
    by (simp only: less_eq_div_iff_mult_less_eq zero_less_numeral)
  then show ?thesis
    by simp
qed

text \<open>
  Claim C7, as the code has it: the sampling loop never raises and yields the signed 16-bit
  little-endian sample at each offset \<open>i = 0, 4, 8, \<dots>\<close> below \<open>min(len(data), 40000)\<close> with
  \<open>i + 2 \<le> len(data)\<close>, in this order and nothing else. These are
  \<open>(min(len(data), 40000) + 2) div 4\<close> samples: the ceiling of \<open>min(len(data), 40000) / 4\<close>
  unless \<open>len(data) < 40000\<close> and \<open>len(data) mod 4 = 1\<close>, one less than this ceiling in that
  case, and never more than 10000.
\<close>

theorem extract_samples_count:
  "\<exists>samples. extract_samples data = Inr samples \<and>
     samples = map (\<lambda>k. sint (word_cat (data ! (4 * k + 1)) (data ! (4 * k)) :: 16 word))
       [0..<(min (length data) 40000 + 2) div 4] \<and>
     (\<forall>k<length samples. 4 * k < min (length data) 40000 \<and> 4 * k + 2 \<le> length data) \<and>
     length samples = (min (length data) 40000 + 2) div 4 \<and>
     (\<not> (length data < 40000 \<and> length data mod 4 = 1) \<longrightarrow>
        int (length samples) = \<lceil>rat_of_nat (min (length data) 40000) / 4\<rceil>) \<and>
     (length data < 40000 \<and> length data mod 4 = 1 \<longrightarrow>
        int (length samples) = \<lceil>rat_of_nat (min (length data) 40000) / 4\<rceil> - 1) \<and>
     length samples \<le> 10000"
proof -
  define m where "m = min (length data) 40000"
  define samples where "samples = map (\<lambda>k. sample_at data (4 * k)) [0..<(m + 2) div 4]"
  have v: "extract_samples data = Inr samples"
    unfolding samples_def m_def by (rule extract_samples_value)
  have len: "length samples = (m + 2) div 4"
    by (simp add: samples_def)
  have m: "m \<le> 40000" "m \<le> length data"
    by (simp_all add: m_def)
  have le: "(m + 2) div 4 \<le> 10000"
    using m(1) by linarith
  have rng: "4 * k < m \<and> 4 * k + 2 \<le> length data" if "k < (m + 2) div 4" for k
    using sample_offsets_in_range [OF that] m(2) by linarith
  have not1: "m mod 4 \<noteq> 1" if "\<not> (length data < 40000 \<and> length data mod 4 = 1)"
  proof (cases "length data < 40000")
    case True
    then have "m = length data" by (simp add: m_def)
    then show ?thesis using that True by simp
  next
    case False
    then have "m = 40000" by (simp add: m_def)
    then show ?thesis by simp
  qed
  have is1: "m mod 4 = 1" if "length data < 40000 \<and> length data mod 4 = 1"
  proof -
    have "m = length data" using that by (simp add: m_def)
    then show ?thesis using that by simp
  qed
  show ?thesis
    unfolding m_def [symmetric]
  proof (intro exI conjI allI impI)
    show "extract_samples data = Inr samples"
      by (fact v)
    show "samples = map (\<lambda>k. sint (word_cat (data ! (4 * k + 1)) (data ! (4 * k)) :: 16 word))
        [0..<(m + 2) div 4]"
      by (simp add: samples_def sample_at_def)
    show "length samples = (m + 2) div 4"
      by (fact len)
    show "length samples \<le> 10000"
      using le by (simp only: len)
  next
    fix k assume "k < length samples"
    then have "k < (m + 2) div 4" by (simp only: len)
    then show "4 * k < m" and "4 * k + 2 \<le> length data"
      using rng by blast+
  next
    assume "\<not> (length data < 40000 \<and> length data mod 4 = 1)"
    then have "m mod 4 \<noteq> 1" by (rule not1)
    then show "int (length samples) = \<lceil>rat_of_nat m / 4\<rceil>"
      unfolding len by (rule sample_count_ceiling(1))
  next
    assume "length data < 40000 \<and> length data mod 4 = 1"
    then have "m mod 4 = 1" by (rule is1)
    then show "int (length samples) = \<lceil>rat_of_nat m / 4\<rceil> - 1"
      unfolding len by (rule sample_count_ceiling(2))
  qed
qed
theorem extract_samples_count_witness:
  "\<not> (length (replicate 1002 (1::byte)) < 40000 \<and> length (replicate 1002 (1::byte)) mod 4 = 1) \<and>
   (\<exists>samples. extract_samples (replicate 1002 1) = Inr samples \<and> length samples = 251 \<and>
      int (length samples) = \<lceil>rat_of_nat 1002 / 4\<rceil> \<and> samples ! 250 = 257)"
proof -
  from extract_samples_count [of "replicate 1002 1"]
  obtain samples where s: "extract_samples (replicate 1002 1) = Inr samples"
      "samples = map (\<lambda>k. sint (word_cat (replicate 1002 (1::byte) ! (4 * k + 1))
          (replicate 1002 (1::byte) ! (4 * k)) :: 16 word))
        [0..<(min (length (replicate 1002 (1::byte))) 40000 + 2) div 4]"
      "length samples = (min (length (replicate 1002 (1::byte))) 40000 + 2) div 4"
    by blast
  have l: "length samples = 251"
    using s(3) by simp
  have c: "int (length samples) = \<lceil>rat_of_nat 1002 / 4\<rceil>"
    unfolding l ceiling_quarter by simp
  have "samples ! 250 = sint (word_cat (replicate 1002 (1::byte) ! (4 * 250 + 1))
          (replicate 1002 (1::byte) ! (4 * 250)) :: 16 word)"
    unfolding s(2) by (subst nth_map) simp_all
  also have "\<dots> = sint (word_cat (1::byte) (1::byte) :: 16 word)"
    by simp
  also have "\<dots> = 257"
    by code_simp
  finally have "samples ! 250 = 257" .
  then show ?thesis
    using s(1) l c by simp
qed

text \<open>
  The count stated in claim C7 fails on a block of 1001 non-zero bytes, which reaches the
  sampling loop: the offset \<open>i = 1000\<close> is skipped by the guard \<open>i + 2 \<le> len(data)\<close>, so 250
  samples are interpreted, and the ceiling of \<open>1001 / 4\<close> is 251.
\<close>

theorem extract_samples_count_counterexample:
  "1000 \<le> length (replicate 1001 (1::byte)) \<and>
   zero_ratio (replicate 1001 1) = Inr 0 \<and>
   map_sum id length (extract_samples (replicate 1001 1)) = Inr 250 \<and>
   \<lceil>rat_of_nat (min (length (replicate 1001 (1::byte))) 40000) / 4\<rceil> = 251"
proof -
  obtain samples where s: "extract_samples (replicate 1001 1) = Inr samples"
    "length samples = (min (length (replicate 1001 (1::byte))) 40000 + 2) div 4"
    using extract_samples_length by blast
  have "length samples = 250"
    using s(2) by simp
  then have "map_sum id length (extract_samples (replicate 1001 1)) = Inr 250"
    using s(1) by simp
  moreover have "zero_ratio (replicate 1001 1) = Inr 0"
    by (simp add: zero_ratio_def truediv_def count_list_replicate)
  moreover have "\<lceil>rat_of_nat (min (length (replicate 1001 (1::byte))) 40000) / 4\<rceil> = 251"
    by (simp add: ceiling_eq_iff)
  ultimately show ?thesis by simp
qed

subsection \<open>The statistics of the samples\<close>

lemma float_ok_mono:
  "float_ok fp \<Longrightarrow> x \<le> y \<Longrightarrow> rnd fp x \<le> rnd fp y"
  by (simp add: float_ok_def)

lemma float_ok_int:
  "float_ok fp \<Longrightarrow> \<bar>k\<bar> \<le> 2 ^ 53 \<Longrightarrow> rnd fp (of_int k) = of_int k"
  by (simp add: float_ok_def)

lemma rnd_between:
  assumes "float_ok fp" and "of_int a \<le> x" and "x \<le> of_int b"
    and "\<bar>a\<bar> \<le> 2 ^ 53" and "\<bar>b\<bar> \<le> 2 ^ 53"
  shows "of_int a \<le> rnd fp x \<and> rnd fp x \<le> of_int b"
proof -
  have "rnd fp (of_int a) \<le> rnd fp x" and "rnd fp x \<le> rnd fp (of_int b)"
    using assms(1-3) by (auto intro: float_ok_mono)
  then show ?thesis
    using assms(1,4,5) by (simp add: float_ok_int)
qed

lemma fold_max_bounds:
  fixes y :: int
  shows "y \<le> fold max ys y \<and> (\<forall>x\<in>set ys. x \<le> fold max ys y)"
proof (induction ys arbitrary: y)
  case Nil
  then show ?case by simp
next
  case (Cons a ys)
  have "max a y \<le> fold max ys (max a y)" and "\<forall>x\<in>set ys. x \<le> fold max ys (max a y)"
    using Cons.IH [of "max a y"] by simp_all
  then show ?case
    by auto
qed

lemma fold_max_le:
  fixes y :: int
  shows "y \<le> c \<Longrightarrow> \<forall>x\<in>set ys. x \<le> c \<Longrightarrow> fold max ys y \<le> c"
  by (induction ys arbitrary: y) simp_all

text \<open>The peak of a non-empty list of samples bounds each of them, and it is not negative.\<close>

lemma max_val_of_bounds:
  assumes "samples \<noteq> []" and "\<forall>s\<in>set samples. \<bar>s\<bar> \<le> c"
  shows "\<exists>max_val. max_val_of samples = Inr max_val \<and> 0 \<le> max_val \<and> max_val \<le> c \<and>
           (\<forall>s\<in>set samples. \<bar>s\<bar> \<le> max_val)"
proof -
  obtain s0 rest where s: "samples = s0 # rest"
    using assms(1) by (cases samples) auto
  let ?m = "fold max (map abs rest) \<bar>s0\<bar>"
  have m: "max_val_of samples = Inr ?m"
    by (simp add: max_val_of_def s)
  have b: "\<bar>s0\<bar> \<le> ?m" "\<forall>x\<in>set (map abs rest). x \<le> ?m"
    using fold_max_bounds [of "\<bar>s0\<bar>" "map abs rest"] by simp_all
  have "0 \<le> ?m"
    using b(1) abs_ge_zero [of s0] by linarith
  moreover have "?m \<le> c"
    using assms(2) by (intro fold_max_le) (simp_all add: s)
  moreover have "\<forall>s\<in>set samples. \<bar>s\<bar> \<le> ?m"
    using b by (simp add: s)
  ultimately show ?thesis
    using m by blast
qed

lemma sum_list_bounds:
  fixes f :: "'a \<Rightarrow> int"
  assumes "\<forall>x\<in>set xs. 0 \<le> f x \<and> f x \<le> c"
  shows "0 \<le> sum_list (map f xs) \<and> sum_list (map f xs) \<le> c * int (length xs)"
  using assms
proof (induction xs)
  case Nil
  then show ?case by simp
next
  case (Cons a xs)
  then have "0 \<le> f a" "f a \<le> c" "0 \<le> sum_list (map f xs)"
      "sum_list (map f xs) \<le> c * int (length xs)"
    by simp_all
  moreover have "c * int (length (a # xs)) = c + c * int (length xs)"
    by (simp add: algebra_simps)
  ultimately show ?case
    by simp
qed

text \<open>
  The sum of the absolute successive differences is at most twice the peak, for each of
  the differences.
\<close>

lemma sum_diffs_bounds:
  assumes "\<forall>s\<in>set samples. \<bar>s\<bar> \<le> m"
  shows "0 \<le> sum_list (diffs_of samples) \<and>
         sum_list (diffs_of samples) \<le> (2 * m) * int (length (diffs_of samples))"
proof -
  let ?d = "\<lambda>i. \<bar>samples ! i - samples ! (i - 1)\<bar>"
  have "\<forall>i\<in>set [1..<length samples]. 0 \<le> ?d i \<and> ?d i \<le> 2 * m"
  proof
    fix i assume "i \<in> set [1..<length samples]"
    then have "i < length samples"
      by simp
    moreover from this have "i - 1 < length samples"
      by linarith
    ultimately have "i < length samples" and "i - 1 < length samples"
      by blast+
    then have "samples ! i \<in> set samples" and "samples ! (i - 1) \<in> set samples"
      by (simp_all only: nth_mem)
    then have "\<bar>samples ! i\<bar> \<le> m" and "\<bar>samples ! (i - 1)\<bar> \<le> m"
      using assms by blast+
    then show "0 \<le> ?d i \<and> ?d i \<le> 2 * m"
      by linarith
  qed
  then have "0 \<le> sum_list (map ?d [1..<length samples]) \<and>
      sum_list (map ?d [1..<length samples]) \<le> (2 * m) * int (length [1..<length samples])"
    by (rule sum_list_bounds)
  then show ?thesis
    by (simp add: diffs_of_def)
qed

lemma avg_diff_of_bounds:
  assumes "float_ok fp" and "\<forall>s\<in>set samples. \<bar>s\<bar> \<le> m" and "0 \<le> m" and "m \<le> 32768"
  shows "\<exists>avg_diff. avg_diff_of fp samples = Inr avg_diff \<and> 0 \<le> avg_diff \<and>
           avg_diff \<le> of_int (2 * m)"
proof (cases "diffs_of samples = []")
  case True
  then show ?thesis
    using assms(3) by (simp add: avg_diff_of_def)
next
  case False
  let ?S = "sum_list (diffs_of samples)" and ?k = "length (diffs_of samples)"
  have k: "0 < ?k"
    using False by simp
  have S: "0 \<le> ?S" "?S \<le> (2 * m) * int ?k"
    using sum_diffs_bounds [OF assms(2)] by simp_all
  have lo: "rat_of_int 0 \<le> of_int ?S / of_nat ?k"
    using S(1) by simp
  have "rat_of_int ?S \<le> of_int ((2 * m) * int ?k)"
    using S(2) by (simp only: of_int_le_iff)
  then have "rat_of_int ?S \<le> of_int (2 * m) * of_nat ?k"
    by simp
  then have hi: "of_int ?S / of_nat ?k \<le> rat_of_int (2 * m)"
    using k by (simp add: pos_divide_le_eq)
  have "\<bar>0::int\<bar> \<le> 2 ^ 53" and "\<bar>2 * m\<bar> \<le> 2 ^ 53"
    using assms(3,4) by simp_all
  then have "rat_of_int 0 \<le> rnd fp (of_int ?S / of_nat ?k) \<and>
      rnd fp (of_int ?S / of_nat ?k) \<le> of_int (2 * m)"
    using assms(1) lo hi by (intro rnd_between)
  then show ?thesis
    using False by (simp add: avg_diff_of_def fdiv_def Let_def)
qed

text \<open>
  The smoothness of line 66 lies between 0 and 1 when the mean difference is at most
  twice the peak.
\<close>

lemma smoothness_expr_bounds:
  assumes "float_ok fp" and "0 \<le> avg_diff" and "avg_diff \<le> of_int (2 * max_val)"
    and "max_val \<le> 32768"
  shows "\<exists>smoothness. smoothness_expr fp avg_diff max_val = Inr smoothness \<and>
           0 \<le> smoothness \<and> smoothness \<le> 1"
proof (cases "0 < max_val")
  case False
  then show ?thesis
    by (simp add: smoothness_expr_def)
next
  case True
  let ?q = "rnd fp (avg_diff / of_int (max_val * 2))"
  have pos: "0 < rat_of_int (max_val * 2)"
    using True by simp
  have "rat_of_int 0 \<le> avg_diff / of_int (max_val * 2)"
    using assms(2) pos by simp
  moreover have "avg_diff / of_int (max_val * 2) \<le> rat_of_int 1"
    using assms(3) pos by (simp add: pos_divide_le_eq mult.commute)
  ultimately have q: "rat_of_int 0 \<le> ?q \<and> ?q \<le> rat_of_int 1"
    using assms(1) by (intro rnd_between) simp_all
  then have "rat_of_int 0 \<le> 1 - ?q" and "1 - ?q \<le> rat_of_int 1"
    by simp_all
  then have "rat_of_int 0 \<le> rnd fp (1 - ?q) \<and> rnd fp (1 - ?q) \<le> rat_of_int 1"
    using assms(1) by (intro rnd_between) simp_all
  then show ?thesis
    using True pos by (simp add: smoothness_expr_def fdiv_def and_then_def)
qed

text \<open>The variance of a non-empty list of samples is computed without an exception.\<close>

lemma variance_of_total:
  "samples \<noteq> [] \<Longrightarrow> \<exists>variance. variance_of fp samples = Inr variance"
  by (simp add: variance_of_def fdiv_def and_then_def)


text \<open>Every interpreted sample is a signed 16-bit integer.\<close>

lemma extract_samples_range:
  assumes "extract_samples data = Inr samples"
  shows "\<forall>s\<in>set samples. \<bar>s\<bar> \<le> 32768"
proof -
  have "samples = map (\<lambda>k. sample_at data (4 * k)) [0..<(min (length data) 40000 + 2) div 4]"
    using assms by (simp add: extract_samples_value)
  moreover have "\<bar>sample_at data i\<bar> \<le> 32768" for i
    using sint_ge [of "word_cat (data ! (i + 1)) (data ! i) :: 16 word"]
      sint_lt [of "word_cat (data ! (i + 1)) (data ! i) :: 16 word"]
    by (simp add: sample_at_def)
  ultimately show ?thesis
    by auto
qed

subsection \<open>The classification by variance and smoothness\<close>

lemma smoothness_of_parts:
  assumes "smoothness_of fp samples = Inr smoothness"
  shows "\<exists>avg_diff max_val. avg_diff_of fp samples = Inr avg_diff \<and>
           max_val_of samples = Inr max_val \<and>
           smoothness_expr fp avg_diff max_val = Inr smoothness"
  using assms by (auto simp: smoothness_of_def and_then_def split: sum.splits)

text \<open>
  A block that passes the tests on its length, its zero ratio and its number of samples is
  classified by lines 63-82 from the statistics of its samples.
\<close>

lemma analyze_block_samples:
  assumes "1000 \<le> length data"
    and "(of_nat (count_list data 0) / of_nat (length data) :: rat) \<le> 9 / 10"
    and "extract_samples data = Inr samples" and "100 \<le> length samples"
    and "variance_of fp samples = Inr variance"
    and "avg_diff_of fp samples = Inr avg_diff"
    and "max_val_of samples = Inr max_val"
  shows "analyze_block fp data =
    (if max_val = 0 then Inr (Silence, 0)
     else and_then (smoothness_expr fp avg_diff max_val) (\<lambda>smoothness.
       if variance < 1000 then Inr (Silence, smoothness)
       else if smoothness > LIT_0_3 \<and> variance > 10000 then Inr (Audio, smoothness)
       else if smoothness < LIT_0_2 then Inr (Noise, smoothness)
       else Inr (Audio, smoothness)))"
proof -
  have "data \<noteq> []"
    using assms(1) by auto
  then have zr: "zero_ratio data = Inr (of_nat (count_list data 0) / of_nat (length data))"
    by (rule zero_ratio_value)
  have r: "\<not> r > 99 / 100" "\<not> r > 90 / 100" if "r \<le> 9 / 10" for r :: rat
    using that by linarith+
  have h: "\<not> length data < 1000" "\<not> length samples < 100"
    "\<not> (of_nat (count_list data 0) / of_nat (length data) :: rat) > 99 / 100"
    "\<not> (of_nat (count_list data 0) / of_nat (length data) :: rat) > 90 / 100"
    using assms(1,4) r [OF assms(2)] by simp_all
  show ?thesis
    by (simp only: analyze_block_def zr assms(3,5,6,7) h and_then_def sum.case if_False)
qed

text \<open>
  Claim C5: a block of at least 1000 bytes with zero ratio at most 0.90 and at least 100
  samples, whose smoothness and variance, as the code computes them, are greater than
  \<open>0.3\<close> and greater than 10000, is classified \<open>Audio\<close>, with the smoothness as score. The
  smoothness is compared with the double that the literal \<open>0.3\<close> denotes, which is below
  \<open>3 / 10\<close>, so that every smoothness above \<open>3 / 10\<close> is covered.
\<close>

theorem analyze_block_audio:
  assumes "1000 \<le> length data"
    and "(of_nat (count_list data 0) / of_nat (length data) :: rat) \<le> 9 / 10"
    and "extract_samples data = Inr samples" and "100 \<le> length samples"
    and "variance_of fp samples = Inr variance"
    and "smoothness_of fp samples = Inr smoothness"
    and "LIT_0_3 < smoothness" and "10000 < variance"
  shows "analyze_block fp data = Inr (Audio, smoothness)"
proof -
  obtain avg_diff max_val where p: "avg_diff_of fp samples = Inr avg_diff"
      "max_val_of samples = Inr max_val" "smoothness_expr fp avg_diff max_val = Inr smoothness"
    using smoothness_of_parts [OF assms(6)] by blast
  have "0 < smoothness"
    using assms(7) by (simp add: LIT_0_3_def)
  then have "0 < max_val"
    using p(3) by (auto simp: smoothness_expr_def split: if_splits)
  then have "max_val \<noteq> 0"
    by simp
  moreover have "\<not> variance < 1000"
    using assms(8) by simp
  ultimately show ?thesis
    unfolding analyze_block_samples [OF assms(1-5) p(1,2)] p(3)
    using assms(7,8) by (simp add: and_then_def)
qed


text \<open>
  Claim C10: for every input, \<open>analyze_block\<close> returns without an exception, and its score
  is between 0 and 1. The score is 0, the zero ratio or the smoothness; the mean absolute
  successive difference is at most twice the peak, and rounding keeps the quotient and
  its complement between 0 and 1.
\<close>

theorem analyze_block_score_range:
  assumes "float_ok fp"
  shows "\<exists>block_type score. analyze_block fp data = Inr (block_type, score) \<and>
           0 \<le> score \<and> score \<le> 1"
proof (cases "length data < 1000")
  case True
  then show ?thesis
    by (simp add: analyze_block_def)
next
  case long: False
  let ?zr = "of_nat (count_list data 0) / of_nat (length data) :: rat"
  have "data \<noteq> []"
    using long by auto
  then have zr: "zero_ratio data = Inr ?zr"
    by (rule zero_ratio_value)
  show ?thesis
  proof (cases "?zr > 90 / 100")
    case True
    have "count_list data 0 \<le> length data"
      by (rule count_le_length)
    then have "rat_of_nat (count_list data 0) \<le> of_nat (length data)"
      by (simp only: of_nat_le_iff)
    then have b: "0 \<le> ?zr" "?zr \<le> 1"
      using \<open>data \<noteq> []\<close> by (simp_all add: divide_le_eq_1)
    show ?thesis
    proof (cases "?zr > 99 / 100")
      case True
      have "analyze_block fp data = Inr (Empty, 0)"
        by (simp only: analyze_block_def zr and_then_def sum.case long True if_False if_True)
      then show ?thesis
        by simp
    next
      case False
      have "analyze_block fp data = Inr (Silence, ?zr)"
        by (simp only: analyze_block_def zr and_then_def sum.case long False True
            if_False if_True)
      then show ?thesis
        using b by simp
    qed
  next
    case low: False
    obtain samples where s: "extract_samples data = Inr samples"
      using extract_samples_length by blast
    show ?thesis
    proof (cases "length samples < 100")
      case True
      moreover have "\<not> ?zr > 99 / 100"
        using low by linarith
      ultimately have "analyze_block fp data = Inr (Empty, 0)"
        using long low
        by (simp only: analyze_block_def zr s and_then_def sum.case if_False if_True)
      then show ?thesis
        by simp
    next
      case False
      then have ne: "samples \<noteq> []" and n: "100 \<le> length samples"
        by auto
      obtain variance where v: "variance_of fp samples = Inr variance"
        using variance_of_total [OF ne] by blast
      obtain max_val where m: "max_val_of samples = Inr max_val" "0 \<le> max_val"
          "max_val \<le> 32768" "\<forall>s\<in>set samples. \<bar>s\<bar> \<le> max_val"
        using max_val_of_bounds [OF ne extract_samples_range [OF s]] by blast
      obtain avg_diff where a: "avg_diff_of fp samples = Inr avg_diff" "0 \<le> avg_diff"
          "avg_diff \<le> of_int (2 * max_val)"
        using avg_diff_of_bounds [OF assms m(4) m(2) m(3)] by blast
      obtain smoothness where sm: "smoothness_expr fp avg_diff max_val = Inr smoothness"
          "0 \<le> smoothness" "smoothness \<le> 1"
        using smoothness_expr_bounds [OF assms a(2) a(3) m(3)] by blast
      have "?zr \<le> 9 / 10"
        using low by linarith
      then have l: "1000 \<le> length data" "?zr \<le> 9 / 10"
        using long by simp_all
      show ?thesis
        unfolding analyze_block_samples [OF l s n v a(1) m(1)] sm(1)
        using sm(2,3) by (simp add: and_then_def)
    qed
  qed
qed

subsection \<open>Two blocks of 1000 bytes\<close>

lemma length_concat_replicate:
  "length (concat (replicate n xs)) = n * length xs"
  by (induction n) simp_all

lemma nth_concat_replicate:
  "i < n * length xs \<Longrightarrow> concat (replicate n xs) ! i = xs ! (i mod length xs)"
proof (induction n arbitrary: i)
  case 0
  then show ?case by simp
next
  case (Suc n)
  show ?case
  proof (cases "i < length xs")
    case True
    then show ?thesis
      by (simp add: nth_append)
  next
    case False
    then have "i - length xs < n * length xs"
      using Suc.prems by simp
    then have "concat (replicate n xs) ! (i - length xs) = xs ! ((i - length xs) mod length xs)"
      by (rule Suc.IH)
    moreover have "(i - length xs) mod length xs = i mod length xs"
      using False by (simp add: le_mod_geq)
    ultimately show ?thesis
      using False by (simp add: nth_append)
  qed
qed

lemma sum_list_concat_replicate:
  fixes xs :: "'a::semiring_1 list"
  shows "sum_list (concat (replicate n xs)) = of_nat n * sum_list xs"
  by (induction n) (simp_all add: algebra_simps)

text \<open>
  A block of 125 repetitions of 8 bytes holds 250 samples, which alternate between the
  two values of the first and of the fifth pair of bytes.
\<close>

lemma extract_samples_period:
  fixes a0 a1 a2 a3 b0 b1 b2 b3 :: byte
  shows "extract_samples (concat (replicate 125 [a0, a1, a2, a3, b0, b1, b2, b3])) =
    Inr (concat (replicate 125
      [sint (word_cat a1 a0 :: 16 word), sint (word_cat b1 b0 :: 16 word)]))"
proof -
  let ?blk = "[a0, a1, a2, a3, b0, b1, b2, b3]"
  let ?data = "concat (replicate 125 ?blk)"
  let ?two = "[sint (word_cat a1 a0 :: 16 word), sint (word_cat b1 b0 :: 16 word)]"
  have len: "length ?data = 1000"
    by (simp add: length_concat_replicate)
  have cnt: "(min (length ?data) 40000 + 2) div 4 = 250"
    by (simp add: len)
  have v: "extract_samples ?data = Inr (map (\<lambda>k. sample_at ?data (4 * k)) [0..<250])"
    using extract_samples_value [of ?data] by (simp only: cnt)
  have "map (\<lambda>k. sample_at ?data (4 * k)) [0..<250] = concat (replicate 125 ?two)"
  proof (rule nth_equalityI)
    show "length (map (\<lambda>k. sample_at ?data (4 * k)) [0..<250])
        = length (concat (replicate 125 ?two))"
      by (simp add: length_concat_replicate)
  next
    fix k assume "k < length (map (\<lambda>k. sample_at ?data (4 * k)) [0..<250])"
    then have k: "k < 250"
      by simp
    then have i: "4 * k < 125 * length ?blk" "4 * k + 1 < 125 * length ?blk"
      and j: "k < 125 * length ?two"
      by simp_all
    have d: "?data ! (4 * k) = ?blk ! ((4 * k) mod 8)"
      "?data ! (4 * k + 1) = ?blk ! ((4 * k + 1) mod 8)"
      using nth_concat_replicate [OF i(1)] nth_concat_replicate [OF i(2)] by simp_all
    have t: "concat (replicate 125 ?two) ! k = ?two ! (k mod 2)"
      using nth_concat_replicate [OF j] by (simp add: numeral_2_eq_2)
    have l: "map (\<lambda>k. sample_at ?data (4 * k)) [0..<250] ! k = sample_at ?data (4 * k)"
      using k by simp
    have sv: "sample_at ?data (4 * k) =
        sint (word_cat (?blk ! ((4 * k + 1) mod 8)) (?blk ! ((4 * k) mod 8)) :: 16 word)"
      by (simp only: sample_at_def d)
    show "map (\<lambda>k. sample_at ?data (4 * k)) [0..<250] ! k = concat (replicate 125 ?two) ! k"
    proof (cases "even k")
      case True
      then obtain h where h: "k = 2 * h"
        by (auto elim: evenE)
      have m: "(4 * k) mod 8 = 0" "(4 * k + 1) mod 8 = 1" "k mod 2 = 0"
        unfolding h by presburger+
      have "sample_at ?data (4 * k) = ?two ! (k mod 2)"
        unfolding sv m by simp
      then show ?thesis
        by (simp only: l t)
    next
      case False
      then obtain h where h: "k = 2 * h + 1"
        by (auto elim: oddE)
      have m: "(4 * k) mod 8 = 4" "(4 * k + 1) mod 8 = 5" "k mod 2 = 1"
        unfolding h by presburger+
      have "sample_at ?data (4 * k) = ?two ! (k mod 2)"
        unfolding sv m by simp
      then show ?thesis
        by (simp only: l t)
    qed
  qed
  then show ?thesis
    using v by simp
qed

lemma float_ok_exact_ops:
  "float_ok exact_ops"
  by (simp add: float_ok_def exact_ops_def sum_list_replicate)

lemma length_diffs_of:
  "length (diffs_of samples) = length samples - 1"
  by (simp add: diffs_of_def)

theorem analyze_block_audio_witness:
  "1000 \<le> length (concat (replicate 125 [0, 3, 1, 1, 0, 4, 1, 1 :: byte])) \<and>
   (of_nat (count_list (concat (replicate 125 [0, 3, 1, 1, 0, 4, 1, 1 :: byte])) 0) /
      of_nat (length (concat (replicate 125 [0, 3, 1, 1, 0, 4, 1, 1 :: byte]))) :: rat) \<le> 9 / 10 \<and>
   extract_samples (concat (replicate 125 [0, 3, 1, 1, 0, 4, 1, 1])) =
     Inr (concat (replicate 125 [768, 1024])) \<and>
   100 \<le> length (concat (replicate 125 [768, 1024 :: int])) \<and>
   variance_of exact_ops (concat (replicate 125 [768, 1024])) = Inr 16384 \<and>
   smoothness_of exact_ops (concat (replicate 125 [768, 1024])) = Inr (7 / 8) \<and>
   LIT_0_3 < 7 / 8 \<and> (10000 :: rat) < 16384 \<and>
   analyze_block exact_ops (concat (replicate 125 [0, 3, 1, 1, 0, 4, 1, 1])) =
     Inr (Audio, 7 / 8)"
proof -
  let ?data = "concat (replicate 125 [0, 3, 1, 1, 0, 4, 1, 1 :: byte])"
  let ?samples = "concat (replicate 125 [768, 1024 :: int])"
  have w: "sint (word_cat (3 :: byte) (0 :: byte) :: 16 word) = 768"
    "sint (word_cat (4 :: byte) (0 :: byte) :: 16 word) = 1024"
    by code_simp+
  have len: "1000 \<le> length ?data"
    by (simp add: length_concat_replicate)
  have "count_list ?data 0 = 250"
    by code_simp
  then have ratio: "(of_nat (count_list ?data 0) / of_nat (length ?data) :: rat) \<le> 9 / 10"
    by (simp add: length_concat_replicate)
  have e: "extract_samples ?data = Inr ?samples"
    using extract_samples_period [of 0 3 1 1 0 4 1 1] by (simp only: w)
  have n: "100 \<le> length ?samples"
    by (simp add: length_concat_replicate)
  have v: "variance_of exact_ops ?samples = Inr 16384"
    by (simp add: variance_of_def fdiv_def exact_ops_def and_then_def map_concat
        sum_list_concat_replicate length_concat_replicate)
  have d: "sum_list (diffs_of ?samples) = 63744"
    by code_simp
  have m: "max_val_of ?samples = Inr 1024"
    by code_simp
  have "length (diffs_of ?samples) = 249"
    by (simp add: length_diffs_of length_concat_replicate)
  then have a: "avg_diff_of exact_ops ?samples = Inr 256"
    by (auto simp: avg_diff_of_def Let_def fdiv_def exact_ops_def d)
  have sm: "smoothness_of exact_ops ?samples = Inr (7 / 8)"
    unfolding smoothness_of_def a m
    by (simp add: and_then_def smoothness_expr_def fdiv_def exact_ops_def)
  have l: "LIT_0_3 < 7 / 8" "(10000 :: rat) < 16384"
    by (simp_all add: LIT_0_3_def)
  have "analyze_block exact_ops ?data = Inr (Audio, 7 / 8)"
    using len ratio e n v sm l by (rule analyze_block_audio)
  then show ?thesis
    using len ratio e n v sm l by simp
qed


theorem analyze_block_score_range_witness:
  "float_ok exact_ops \<and>
   (\<exists>block_type score.
      analyze_block exact_ops (concat (replicate 125 [1, 1, 1, 1, 255, 254, 1, 1])) =
        Inr (block_type, score) \<and> 0 \<le> score \<and> score \<le> 1)"
  using analyze_block_score_range [OF float_ok_exact_ops] float_ok_exact_ops by simp

section \<open>Properties of the WAV writer\<close>

lemma length_le_bytes:
  "length (le_bytes n v) = n"
  by (induction n arbitrary: v) simp_all

lemma le_nat_le_bytes:
  "0 \<le> v \<Longrightarrow> le_nat (le_bytes n v) = nat (v mod 256 ^ n)"
proof (induction n arbitrary: v)
  case 0
  then show ?case by simp
next
  case (Suc n)
  have d: "0 \<le> v div 256"
    using Suc.prems by simp
  have b: "unat (word_of_int v :: byte) = nat (v mod 256)"
    by (simp add: unsigned_of_int take_bit_eq_mod)
  have "v mod (256 * 256 ^ n) = 256 * (v div 256 mod 256 ^ n) + v mod 256"
    by (rule zmod_zmult2_eq) simp
  then have "v mod 256 ^ Suc n = 256 * (v div 256 mod 256 ^ n) + v mod 256"
    by simp
  moreover have "0 \<le> v div 256 mod 256 ^ n" and "0 \<le> v mod 256"
    by simp_all
  ultimately have "nat (v mod 256 ^ Suc n) = nat (v mod 256) + 256 * nat (v div 256 mod 256 ^ n)"
    by (simp add: nat_add_distrib nat_mult_distrib)
  then show ?case
    using Suc.IH [OF d] b by simp
qed

lemma le_nat_pack:
  assumes "0 \<le> v" and "v < 256 ^ n"
  shows "le_nat (le_bytes n v) = nat v"
  using assms by (simp add: le_nat_le_bytes)

lemma length_ascii:
  "length (ascii s) = length s"
  by (simp add: ascii_def)

lemma size_fits_int:
  "int n + 36 < 2 ^ 32 \<longleftrightarrow> n + 36 < 2 ^ 32"
proof -
  have "n + 36 < 2 ^ 32 \<longleftrightarrow> int (n + 36) < int (2 ^ 32)"
    by (simp only: of_nat_less_iff)
  then show ?thesis
    by simp
qed

text \<open>
  When the first size fits 32 bits, no write raises, and the file holds the thirteen
  header fields followed by the raw data.
\<close>

lemma create_wav_header_content:
  assumes "length raw_data + 36 < 2 ^ 32"
  shows "create_wav_header raw_data =
    (None,
     ascii ''RIFF'' @ le_bytes 4 (int (length raw_data) + 36) @ ascii ''WAVE'' @
     ascii ''fmt '' @ le_bytes 4 16 @ le_bytes 2 1 @ le_bytes 2 2 @ le_bytes 4 48000 @
     le_bytes 4 192000 @ le_bytes 2 4 @ le_bytes 2 16 @
     ascii ''data'' @ le_bytes 4 (int (length raw_data)) @ raw_data)"
proof -
  have "int (length raw_data) + 36 < 2 ^ 32"
    using assms by (simp only: size_fits_int)
  then show ?thesis
    by (simp add: create_wav_header_def wav_writes_def pack_I_def pack_H_def Let_def
        SAMPLE_RATE_def CHANNELS_def BYTES_PER_SAMPLE_def BIT_DEPTH_def)
qed

text \<open>
  When it does not, \<open>struct.pack\<close> raises after the tag \<open>RIFF\<close> has been written, and the
  \<open>with\<close> block closes the file with these four bytes in it.
\<close>

lemma create_wav_header_failure:
  assumes "2 ^ 32 \<le> length raw_data + 36"
  shows "create_wav_header raw_data = (Some StructError, ascii ''RIFF'')"
proof -
  have "\<not> int (length raw_data) + 36 < 2 ^ 32"
    using assms by (simp only: size_fits_int not_less)
  then show ?thesis
    by (simp add: create_wav_header_def wav_writes_def pack_I_def Let_def)
qed

text \<open>
  Claim C2, for the sizes that the header can hold: when \<open>N + 36 < 2 ^ 32\<close>, the file
  written for \<open>N\<close> raw bytes is a header of 44 bytes followed by the same raw bytes, and
  reading the header back gives RIFF size \<open>N + 36\<close>, format chunk size 16, audio format 1,
  2 channels, 48000 Hz, byte rate 192000, block align 4, 16 bits per sample and data
  size \<open>N\<close>, which are the configured constants.
\<close>

theorem create_wav_header_roundtrip:
  assumes "length raw_data + 36 < 2 ^ 32"
  shows "\<exists>header.
    create_wav_header raw_data = (None, header @ raw_data) \<and>
    length header = 44 \<and>
    parse_wav (header @ raw_data) =
      Some (\<lparr>riff_size = length raw_data + 36, fmt_size = 16, audio_format = 1,
             num_channels = 2, sample_rate = 48000, byte_rate = 192000, block_align = 4,
             bits_per_sample = 16, data_size = length raw_data\<rparr>, raw_data) \<and>
    (CHANNELS, SAMPLE_RATE, BIT_DEPTH) = (2, 48000, 16) \<and>
    SAMPLE_RATE * CHANNELS * BYTES_PER_SAMPLE = 192000 \<and> CHANNELS * BYTES_PER_SAMPLE = 4"
proof -
  define n where "n = int (length raw_data)"
  define header where "header =
     ascii ''RIFF'' @ le_bytes 4 (n + 36) @ ascii ''WAVE'' @
     ascii ''fmt '' @ le_bytes 4 16 @ le_bytes 2 1 @ le_bytes 2 2 @ le_bytes 4 48000 @
     le_bytes 4 192000 @ le_bytes 2 4 @ le_bytes 2 16 @
     ascii ''data'' @ le_bytes 4 n"
  have n36: "n + 36 < 2 ^ 32"
    using assms unfolding n_def by (simp only: size_fits_int)
  have n: "0 \<le> n" "n + 36 < 2 ^ 32" "n < 2 ^ 32"
    using n36 by (simp_all add: n_def)
  have w: "create_wav_header raw_data = (None, header @ raw_data)"
    using create_wav_header_content [OF assms] by (simp add: header_def n_def)
  have len: "length header = 44"
    by (simp add: header_def length_le_bytes length_ascii)
  have f: "le_nat (le_bytes 4 (n + 36)) = length raw_data + 36"
    "le_nat (le_bytes 4 n) = length raw_data"
    "le_nat (le_bytes 4 16) = 16" "le_nat (le_bytes 2 1) = 1" "le_nat (le_bytes 2 2) = 2"
    "le_nat (le_bytes 4 48000) = 48000" "le_nat (le_bytes 4 192000) = 192000"
    "le_nat (le_bytes 2 4) = 4" "le_nat (le_bytes 2 16) = 16"
    using n by (simp_all add: le_nat_pack n_def nat_add_distrib)
  have p: "parse_wav (header @ raw_data) =
      Some (\<lparr>riff_size = length raw_data + 36, fmt_size = 16, audio_format = 1,
             num_channels = 2, sample_rate = 48000, byte_rate = 192000, block_align = 4,
             bits_per_sample = 16, data_size = length raw_data\<rparr>, raw_data)"
    unfolding parse_wav_def header_def
    by (simp add: py_slice_def length_le_bytes length_ascii f)
  show ?thesis
    using w len p
    by (auto simp: CHANNELS_def SAMPLE_RATE_def BIT_DEPTH_def BYTES_PER_SAMPLE_def)
qed

theorem create_wav_header_roundtrip_witness:
  "length [1, 2, 3, 4 :: byte] + 36 < 2 ^ 32 \<and>
   (\<exists>header. create_wav_header [1, 2, 3, 4] = (None, header @ [1, 2, 3, 4]) \<and>
      length header = 44 \<and>
      map_option (\<lambda>(h, d). (riff_size h, data_size h, d)) (parse_wav (header @ [1, 2, 3, 4]))
        = Some (40, 4, [1, 2, 3, 4]))"
proof -
  have "length [1, 2, 3, 4 :: byte] + 36 < 2 ^ 32"
    by simp
  from create_wav_header_roundtrip [OF this]
  obtain header where h: "create_wav_header [1, 2, 3, 4] = (None, header @ [1, 2, 3, 4])"
    "length header = 44"
    "parse_wav (header @ [1, 2, 3, 4]) =
      Some (\<lparr>riff_size = length [1, 2, 3, 4 :: byte] + 36, fmt_size = 16, audio_format = 1,
             num_channels = 2, sample_rate = 48000, byte_rate = 192000, block_align = 4,
             bits_per_sample = 16, data_size = length [1, 2, 3, 4 :: byte]\<rparr>, [1, 2, 3, 4])"
    by blast
  show ?thesis
    using h by auto
qed

text \<open>
  Claim C2 as stated, for every \<open>N\<close>, fails on a raw file of \<open>2 ^ 32 - 36\<close> bytes: the first
  \<open>struct.pack\<close> raises, and the file is left with 4 bytes, which is neither a 44-byte
  header followed by the raw bytes nor something that the header parser accepts.
\<close>

theorem create_wav_header_roundtrip_counterexample:
  "length (replicate 4294967260 (0::byte)) = 2 ^ 32 - 36 \<and>
   fst (create_wav_header (replicate 4294967260 0)) = Some StructError \<and>
   length (snd (create_wav_header (replicate 4294967260 0))) = 4 \<and>
   parse_wav (snd (create_wav_header (replicate 4294967260 0))) = None"
proof -
  have "2 ^ 32 \<le> length (replicate 4294967260 (0::byte)) + 36"
    by simp
  then have "create_wav_header (replicate 4294967260 0) = (Some StructError, ascii ''RIFF'')"
    by (rule create_wav_header_failure)
  then show ?thesis
    by (simp add: parse_wav_def length_ascii)
qed

text \<open>
  Claim C9, as the code has it: \<open>create_wav_header\<close> succeeds exactly when
  \<open>N + 36 < 2 ^ 32\<close>. For a larger raw file the first \<open>struct.pack\<close> raises
  \<open>struct.error\<close>; by then the WAV file has been opened for writing and the tag \<open>RIFF\<close>
  written, so that the call leaves a file of these 4 bytes behind.
\<close>

theorem create_wav_header_size_limit:
  "(fst (create_wav_header raw_data) = None \<longleftrightarrow> length raw_data + 36 < 2 ^ 32) \<and>
   (2 ^ 32 \<le> length raw_data + 36 \<longrightarrow>
      create_wav_header raw_data = (Some StructError, [0x52, 0x49, 0x46, 0x46]))"
proof (cases "length raw_data + 36 < 2 ^ 32")
  case True
  then show ?thesis
    using create_wav_header_content [OF True] by simp
next
  case False
  then have "2 ^ 32 \<le> length raw_data + 36"
    by simp
  then have "create_wav_header raw_data = (Some StructError, ascii ''RIFF'')"
    by (rule create_wav_header_failure)
  moreover have "ascii ''RIFF'' = [0x52, 0x49, 0x46, 0x46]"
    by (simp add: ascii_def)
  ultimately show ?thesis
    using False by simp
qed

theorem create_wav_header_size_limit_witness:
  "2 ^ 32 \<le> length (replicate 4294967260 (7::byte)) + 36 \<and>
   create_wav_header (replicate 4294967260 7) = (Some StructError, [0x52, 0x49, 0x46, 0x46]) \<and>
   fst (create_wav_header (replicate 4294967260 7)) \<noteq> None"
  using create_wav_header_size_limit [of "replicate 4294967260 7"] by simp

text \<open>
  Claim C9 as stated says that the failing call produces no file. On a raw file of
  \<open>2 ^ 32\<close> bytes the call raises and the WAV file exists, holding the four bytes of
  \<open>RIFF\<close>.
\<close>

theorem create_wav_header_size_limit_counterexample:
  "fst (create_wav_header (replicate 4294967296 (0::byte))) = Some StructError \<and>
   snd (create_wav_header (replicate 4294967296 (0::byte))) = [0x52, 0x49, 0x46, 0x46] \<and>
   snd (create_wav_header (replicate 4294967296 (0::byte))) \<noteq> []"
proof -
  have "2 ^ 32 \<le> length (replicate 4294967296 (0::byte)) + 36"
    by simp
  then have "create_wav_header (replicate 4294967296 0) = (Some StructError, ascii ''RIFF'')"
    by (rule create_wav_header_failure)
  then show ?thesis
    by (simp add: ascii_def)
qed

section \<open>Properties of the main program\<close>

text \<open>
  Claim C8: when the configured image path \<open>PERCORSO_IMMAGINE\<close> does not exist, the program
  prints the error line last and exits with code 1 without calling the scan; when it
  exists, the scan is called, whatever the command line is. The only other \<open>sys.exit\<close>
  of the script (line 234) is in a branch that the setting \<open>USA_PERCORSI_MANUALI = True\<close>
  excludes.
\<close>

theorem main_missing_input:
  "(\<not> exists PERCORSO_IMMAGINE \<longrightarrow>
      (\<exists>out. main argv exists expanduser =
         (out @ [''Errore: file non trovato: '' @ PERCORSO_IMMAGINE], Exit 1)) \<and>
      (1::int) \<noteq> 0) \<and>
   (exists PERCORSO_IMMAGINE \<longrightarrow>
      (\<exists>out. main argv exists expanduser =
         (out, Scan PERCORSO_IMMAGINE (expanduser ''~/Desktop/recovered_audio'')))) \<and>
   (\<forall>code. snd (main argv exists expanduser) = Exit code \<longleftrightarrow>
      code = 1 \<and> \<not> exists PERCORSO_IMMAGINE)"
  by (auto simp: main_def main_with_def USA_PERCORSI_MANUALI_def check_input_def Let_def)

theorem main_missing_input_witness:
  "\<not> (\<lambda>p. False) PERCORSO_IMMAGINE \<and>
   (\<exists>out. main [''find_audio.py''] (\<lambda>p. False) (\<lambda>p. p) =
      (out @ [''Errore: file non trovato: '' @ PERCORSO_IMMAGINE], Exit 1)) \<and>
   snd (main [''find_audio.py''] (\<lambda>p. False) (\<lambda>p. p)) = Exit 1"
  using main_missing_input [of "\<lambda>p. False" "[''find_audio.py'']" "\<lambda>p. p"] by simp

end
